theory Spec2Isabelle
  imports Main "HOL-Library.Signed_Division"
begin

section \<open>Data model of \<^verbatim>\<open>src/elevator/elevator.cpp\<close>\<close>

text \<open>
  The two enumerations of the source. \<^verbatim>\<open>ElevatorState\<close> is the car's state tag,
  \<^verbatim>\<open>RequestType\<close> the kind of button that was pressed.
\<close>

datatype ElevatorState = IDLE | MOVING_UP | MOVING_DOWN | DOORS_OPEN | EMERGENCY_STOP | MAINTENANCE

datatype RequestType = INTERNAL | EXTERNAL_UP | EXTERNAL_DOWN

text \<open>
  The C++ \<^verbatim>\<open>int\<close> fields are integers. \<^verbatim>\<open>INT_MAX\<close> is the 32-bit constant, and
  \<open>wrap32\<close> is the two's complement wrap-around of a 32-bit \<^verbatim>\<open>int\<close>. The
  arithmetic of \<^verbatim>\<open>findNextFloor\<close> and of \<^verbatim>\<open>calculateElevatorScore\<close>, whose operands
  come from the configuration and the caller, is wrapped at every operation. The other
  arithmetic (the floor moving by one, the passenger count of a draw, the counters) is
  left unwrapped.

  \<^verbatim>\<open>std::set<int>\<close> is a list of keys that the operations keep strictly ascending
  (the order in which the container iterates); \<^verbatim>\<open>std::map<int, pair<bool,bool>>\<close> is
  an association list with strictly ascending keys, the pair being
  (upPressed, downPressed). The mutex, the condition variable, the log file and the
  time stamps are not part of the model; the three atomic flags are plain fields. The
  field \<^verbatim>\<open>id\<close> is \<open>car_id\<close> and \<^verbatim>\<open>overloaded\<close> is \<open>overloadedFlag\<close>, since
  Isabelle has taken both names.
\<close>

definition INT_MAX :: int where
  "INT_MAX = 2147483647"

definition wrap32 :: "int \<Rightarrow> int" where
  "wrap32 x = (x + 2147483648) mod 4294967296 - 2147483648"

text \<open>\<^verbatim>\<open>abs(a - b)\<close> on 32-bit operands.\<close>

definition distance32 :: "int \<Rightarrow> int \<Rightarrow> int" where
  "distance32 a b = wrap32 \<bar>wrap32 (a - b)\<bar>"

record Elevator =
  car_id :: int
  currentFloor :: int
  state :: ElevatorState
  maxFloors :: int
  capacity :: int
  currentPassengers :: int
  doorOpen :: bool
  overloadedFlag :: bool
  internalRequests :: "int list"
  externalRequests :: "(int \<times> bool \<times> bool) list"
  running :: bool
  emergencyStop :: bool
  maintenanceMode :: bool
  totalTrips :: int
  totalFloorsTraveled :: int

text \<open>The constructor (lines 86-90): floor 1, idle, empty, no latch set.\<close>

definition newElevator :: "int \<Rightarrow> int \<Rightarrow> int \<Rightarrow> Elevator" where
  "newElevator ident mf cap =
     \<lparr> car_id = ident, currentFloor = 1, state = IDLE, maxFloors = mf, capacity = cap,
       currentPassengers = 0, doorOpen = False, overloadedFlag = False,
       internalRequests = [], externalRequests = [],
       running = True, emergencyStop = False, maintenanceMode = False,
       totalTrips = 0, totalFloorsTraveled = 0 \<rparr>"

subsection \<open>The ordered containers\<close>

definition set_find :: "int \<Rightarrow> int list \<Rightarrow> bool" where
  "set_find x xs = (x \<in> set xs)"

fun set_insert :: "int \<Rightarrow> int list \<Rightarrow> int list" where
  "set_insert x [] = [x]"
| "set_insert x (y # ys) =
     (if y < x then y # set_insert x ys else if y = x then y # ys else x # y # ys)"

definition set_erase :: "int \<Rightarrow> int list \<Rightarrow> int list" where
  "set_erase x xs = filter (\<lambda>y. y \<noteq> x) xs"

text \<open>
  \<^verbatim>\<open>upper_bound\<close> and \<open>lower_bound\<close> return an iterator; here it is the position
  in the ascending list, \<open>length xs\<close> standing for \<^verbatim>\<open>end()\<close> and \<open>0\<close> for
  \<^verbatim>\<open>begin()\<close>.
\<close>

definition upper_bound :: "int \<Rightarrow> int list \<Rightarrow> nat" where
  "upper_bound x xs = length (takeWhile (\<lambda>y. y \<le> x) xs)"

definition lower_bound :: "int \<Rightarrow> int list \<Rightarrow> nat" where
  "lower_bound x xs = length (takeWhile (\<lambda>y. y < x) xs)"

fun map_find :: "int \<Rightarrow> (int \<times> 'v) list \<Rightarrow> 'v option" where
  "map_find k [] = None"
| "map_find k (kv # m) = (if fst kv = k then Some (snd kv) else map_find k m)"

fun map_put :: "int \<Rightarrow> 'v \<Rightarrow> (int \<times> 'v) list \<Rightarrow> (int \<times> 'v) list" where
  "map_put k v [] = [(k, v)]"
| "map_put k v (kv # m) =
     (if fst kv < k then kv # map_put k v m
      else if fst kv = k then (k, v) # m
      else (k, v) # kv # m)"

definition map_erase :: "int \<Rightarrow> (int \<times> 'v) list \<Rightarrow> (int \<times> 'v) list" where
  "map_erase k m = filter (\<lambda>kv. fst kv \<noteq> k) m"

section \<open>The car: class \<^verbatim>\<open>Elevator\<close>\<close>

subsection \<open>\<^verbatim>\<open>requestFloor\<close> (lines 115-164)\<close>

text \<open>
  The result is the returned \<^verbatim>\<open>bool\<close> and the car afterwards. For a hall call the
  source first creates the entry \<open>(false, false)\<close> when the floor has none and then
  sets one bit of it.
\<close>

definition requestFloor :: "int \<Rightarrow> RequestType \<Rightarrow> bool \<Rightarrow> Elevator \<Rightarrow> bool \<times> Elevator" where
  "requestFloor fl ty emergency e =
     (if fl < 1 \<or> fl > maxFloors e then (False, e)
      else if maintenanceMode e \<and> \<not> emergency then (False, e)
      else if emergency then (True, e\<lparr>emergencyStop := True\<rparr>)
      else if ty = INTERNAL then
        (if set_find fl (internalRequests e) then (False, e)
         else (True, e\<lparr>internalRequests := set_insert fl (internalRequests e)\<rparr>))
      else
        (let m = (case map_find fl (externalRequests e) of
                    None \<Rightarrow> map_put fl (False, False) (externalRequests e)
                  | Some _ \<Rightarrow> externalRequests e);
             bits = (case map_find fl m of None \<Rightarrow> (False, False) | Some b \<Rightarrow> b)
         in (True, e\<lparr>externalRequests :=
                        (if ty = EXTERNAL_UP then map_put fl (True, snd bits) m
                         else map_put fl (fst bits, True) m)\<rparr>)))"

subsection \<open>\<^verbatim>\<open>hasExternalRequests\<close> and \<^verbatim>\<open>findNextFloor\<close> (lines 214-265)\<close>

definition pressed :: "int \<times> bool \<times> bool \<Rightarrow> bool" where
  "pressed req = (fst (snd req) \<or> snd (snd req))"

definition hasExternalRequests :: "Elevator \<Rightarrow> bool" where
  "hasExternalRequests e = list_ex pressed (externalRequests e)"

text \<open>The condition of the first loop over the hall calls (lines 241-242).\<close>

definition onTheWay :: "int \<Rightarrow> int \<times> bool \<times> bool \<Rightarrow> bool" where
  "onTheWay cur req =
     ((fst (snd req) \<and> fst req \<ge> cur) \<or> (snd (snd req) \<and> fst req \<le> cur))"

text \<open>
  One loop over \<^verbatim>\<open>externalRequests\<close> in key order, carrying
  \<open>(closestFloor, minDistance)\<close>; \<open>sel\<close> is the loop's condition.
\<close>

fun scanRequests ::
  "(int \<times> bool \<times> bool \<Rightarrow> bool) \<Rightarrow> int \<Rightarrow> (int \<times> bool \<times> bool) list \<Rightarrow> int \<times> int \<Rightarrow> int \<times> int" where
  "scanRequests sel cur [] best = best"
| "scanRequests sel cur (req # rest) best =
     scanRequests sel cur rest
       (if sel req \<and> distance32 (fst req) cur < snd best
        then (fst req, distance32 (fst req) cur) else best)"

definition findNextFloor :: "Elevator \<Rightarrow> int" where
  "findNextFloor e =
     (let xs = internalRequests e; cur = currentFloor e in
      if xs \<noteq> [] then
        (if state e = MOVING_UP then
           (let it = upper_bound cur xs in if it \<noteq> length xs then xs ! it else hd xs)
         else if state e = MOVING_DOWN then
           (let it = lower_bound cur xs in if it \<noteq> 0 then xs ! (it - 1) else hd xs)
         else hd xs)
      else
        (let first = scanRequests (onTheWay cur) cur (externalRequests e)
                       (- 1, wrap32 (maxFloors e + 1)) in
         if fst first \<noteq> - 1 then fst first
         else fst (scanRequests pressed cur (externalRequests e) first)))"

subsection \<open>Stopping: lines 267-314 and 337-387\<close>

definition shouldStopAtCurrentFloor :: "Elevator \<Rightarrow> bool" where
  "shouldStopAtCurrentFloor e =
     (if set_find (currentFloor e) (internalRequests e) then True
      else (case map_find (currentFloor e) (externalRequests e) of
              None \<Rightarrow> False
            | Some bits \<Rightarrow>
                if state e = MOVING_UP \<and> fst bits then True
                else if state e = MOVING_DOWN \<and> snd bits then True
                else if state e = IDLE \<and> (fst bits \<or> snd bits) then True
                else False))"

definition processStop :: "Elevator \<Rightarrow> Elevator" where
  "processStop e =
     (let ints = set_erase (currentFloor e) (internalRequests e);
          exts = (case map_find (currentFloor e) (externalRequests e) of
                    None \<Rightarrow> externalRequests e
                  | Some bits \<Rightarrow>
                      (let bits' = (if state e = MOVING_UP then (False, snd bits)
                                    else if state e = MOVING_DOWN then (fst bits, False)
                                    else (False, False))
                       in if \<not> fst bits' \<and> \<not> snd bits'
                          then map_erase (currentFloor e) (externalRequests e)
                          else map_put (currentFloor e) bits' (externalRequests e)))
      in e\<lparr>internalRequests := ints, externalRequests := exts, totalTrips := totalTrips e + 1\<rparr>)"

text \<open>
  \<^verbatim>\<open>simulatePassengers\<close> draws \<open>entering\<close> from \<open>0..5\<close> and \<open>exiting\<close> from
  \<open>0..min 5 currentPassengers\<close>; the two draws are the parameter \<open>draw\<close>.
\<close>

definition validDraw :: "Elevator \<Rightarrow> int \<times> int \<Rightarrow> bool" where
  "validDraw e draw =
     (0 \<le> fst draw \<and> fst draw \<le> 5 \<and> 0 \<le> snd draw \<and> snd draw \<le> min 5 (currentPassengers e))"

definition simulatePassengers :: "int \<times> int \<Rightarrow> Elevator \<Rightarrow> Elevator" where
  "simulatePassengers draw e =
     (let entering = min (fst draw) (capacity e - currentPassengers e);
          exiting = snd draw;
          e1 = e\<lparr>currentPassengers := currentPassengers e + entering - exiting\<rparr>
      in if currentPassengers e1 > capacity e1
         then e1\<lparr>overloadedFlag := True, currentPassengers := capacity e1\<rparr>
         else e1)"

definition openDoors :: "int \<times> int \<Rightarrow> Elevator \<Rightarrow> Elevator" where
  "openDoors draw e = simulatePassengers draw (e\<lparr>state := DOORS_OPEN, doorOpen := True\<rparr>)"

definition closeDoors :: "Elevator \<Rightarrow> Elevator" where
  "closeDoors e = (if overloadedFlag e then e\<lparr>overloadedFlag := False\<rparr> else e)\<lparr>doorOpen := False\<rparr>"

text \<open>
  The seconds \<^verbatim>\<open>closeDoors\<close> sleeps: three for the overload warning, when the flag
  is set, and one for the doors.
\<close>

definition closeDoorsDelay :: "Elevator \<Rightarrow> nat" where
  "closeDoorsDelay e = (if overloadedFlag e then 3 else 0) + 1"

text \<open>The stop cycle of \<^verbatim>\<open>control\<close> (lines 204-206), in the order of the source.\<close>

definition stopCycle :: "int \<times> int \<Rightarrow> Elevator \<Rightarrow> Elevator" where
  "stopCycle draw e = closeDoors (processStop (openDoors draw e))"

subsection \<open>Motion and state update: lines 316-335 and 389-401\<close>

definition move :: "Elevator \<Rightarrow> Elevator" where
  "move e =
     (if state e \<noteq> MOVING_UP \<and> state e \<noteq> MOVING_DOWN then e
      else
        (let oldFloor = currentFloor e;
             e1 = (if state e = MOVING_UP then e\<lparr>currentFloor := currentFloor e + 1\<rparr>
                   else if state e = MOVING_DOWN then e\<lparr>currentFloor := currentFloor e - 1\<rparr>
                   else e)
         in e1\<lparr>totalFloorsTraveled := totalFloorsTraveled e1 + \<bar>currentFloor e1 - oldFloor\<bar>\<rparr>))"

definition updateState :: "Elevator \<Rightarrow> Elevator" where
  "updateState e =
     (if internalRequests e = [] \<and> \<not> hasExternalRequests e then e\<lparr>state := IDLE\<rparr>
      else
        (let nextFloor = findNextFloor e in
         if nextFloor \<noteq> - 1
         then e\<lparr>state := (if nextFloor > currentFloor e then MOVING_UP else MOVING_DOWN)\<rparr>
         else e\<lparr>state := IDLE\<rparr>))"

subsection \<open>Emergency and maintenance: lines 403-455\<close>

text \<open>
  \<^verbatim>\<open>handleEmergency\<close> and \<^verbatim>\<open>handleMaintenance\<close> poll their flag in a sleep loop
  that only another thread can end. Each is split at that loop: the part before it, and
  the part after it, which runs once the flag is cleared or the car is stopped.
\<close>

definition handleEmergency_begin :: "Elevator \<Rightarrow> Elevator" where
  "handleEmergency_begin e =
     (let e1 = e\<lparr>state := EMERGENCY_STOP\<rparr> in
      if currentFloor e1 \<ge> 1 \<and> currentFloor e1 \<le> maxFloors e1 then e1\<lparr>doorOpen := True\<rparr> else e1)"

definition handleEmergency_end :: "Elevator \<Rightarrow> Elevator" where
  "handleEmergency_end e = (if running e then e\<lparr>state := IDLE, doorOpen := False\<rparr> else e)"

definition handleMaintenance_begin :: "Elevator \<Rightarrow> Elevator" where
  "handleMaintenance_begin e = e\<lparr>state := MAINTENANCE\<rparr>"

definition handleMaintenance_end :: "Elevator \<Rightarrow> Elevator" where
  "handleMaintenance_end e = (if running e then e\<lparr>state := IDLE\<rparr> else e)"

definition resetEmergency :: "Elevator \<Rightarrow> Elevator" where
  "resetEmergency e = e\<lparr>emergencyStop := False\<rparr>"

definition setMaintenanceMode :: "bool \<Rightarrow> Elevator \<Rightarrow> Elevator" where
  "setMaintenanceMode mode e = e\<lparr>maintenanceMode := mode\<rparr>"

subsection \<open>The control loop: lines 166-212\<close>

text \<open>The direction choice of an idle car (lines 189-194).\<close>

definition decideDirection :: "Elevator \<Rightarrow> Elevator" where
  "decideDirection e =
     (if state e = IDLE then
        (if internalRequests e \<noteq> [] \<or> hasExternalRequests e then
           (let nextFloor = findNextFloor e in
            e\<lparr>state := (if nextFloor > currentFloor e then MOVING_UP else MOVING_DOWN)\<rparr>)
         else e)
      else e)"

text \<open>The predicate of \<^verbatim>\<open>cv.wait\<close> (line 182).\<close>

definition controlWake :: "Elevator \<Rightarrow> bool" where
  "controlWake e =
     (internalRequests e \<noteq> [] \<or> hasExternalRequests e \<or> \<not> running e
      \<or> emergencyStop e \<or> maintenanceMode e)"

text \<open>
  One pass through the body of the \<^verbatim>\<open>while (running)\<close> loop, with no other thread
  acting during the pass. A car whose latch is set enters the handler and stays in its
  polling loop; a car with nothing to do stays in \<^verbatim>\<open>cv.wait\<close>.
\<close>

definition controlIteration :: "int \<times> int \<Rightarrow> Elevator \<Rightarrow> Elevator" where
  "controlIteration draw e =
     (if \<not> running e then e
      else if emergencyStop e then handleEmergency_begin e
      else if maintenanceMode e then handleMaintenance_begin e
      else if \<not> controlWake e then e
      else
        (let e1 = move (decideDirection e);
             e2 = (if shouldStopAtCurrentFloor e1 then stopCycle draw e1 else e1)
         in updateState e2))"

section \<open>The dispatcher: class \<^verbatim>\<open>ElevatorControlSystem\<close>\<close>

record ElevatorControlSystem =
  elevators :: "Elevator list"
  systemMaxFloors :: int

text \<open>
  \<^verbatim>\<open>calculateElevatorScore\<close> (lines 588-635). The C++ division truncates towards
  zero (\<open>sdiv\<close>); dividing by a capacity of zero is undefined, which is the result
  \<open>None\<close>. The sum is taken from left to right, as the source writes it.
\<close>

definition calculateElevatorScore :: "Elevator list \<Rightarrow> nat \<Rightarrow> int \<Rightarrow> RequestType \<Rightarrow> int option" where
  "calculateElevatorScore es elevatorIndex targetFloor ty =
     (let elevator = es ! elevatorIndex in
      if emergencyStop elevator \<or> maintenanceMode elevator then Some INT_MAX
      else
        (let cur = currentFloor elevator;
             st = state elevator;
             distance = distance32 cur targetFloor;
             directionScore =
               (if st = MOVING_UP then (if cur \<le> targetFloor then - 10 else 10)
                else if st = MOVING_DOWN then (if cur \<ge> targetFloor then - 10 else 10)
                else if st = IDLE then - 5
                else 0);
             typeScore =
               (if ty = EXTERNAL_UP \<and> st = MOVING_DOWN then 5
                else if ty = EXTERNAL_DOWN \<and> st = MOVING_UP then 5
                else 0)
         in if capacity elevator = 0 then None
            else
              (let loadScore = wrap32 (wrap32 (currentPassengers elevator * 10) sdiv capacity elevator)
               in Some (wrap32 (wrap32 (wrap32 (distance + directionScore) + loadScore)
                                + typeScore)))))"

text \<open>
  The loop of \<^verbatim>\<open>findBestElevator\<close> (lines 577-583) over the indices, carrying
  \<open>(bestIndex, bestScore)\<close>.
\<close>

fun bestLoop ::
  "Elevator list \<Rightarrow> int \<Rightarrow> RequestType \<Rightarrow> nat list \<Rightarrow> nat \<times> int \<Rightarrow> (nat \<times> int) option" where
  "bestLoop es fl ty [] best = Some best"
| "bestLoop es fl ty (i # rest) best =
     (case calculateElevatorScore es i fl ty of
        None \<Rightarrow> None
      | Some score \<Rightarrow> bestLoop es fl ty rest (if score < snd best then (i, score) else best))"

definition findBestElevator :: "Elevator list \<Rightarrow> int \<Rightarrow> RequestType \<Rightarrow> nat option" where
  "findBestElevator es fl ty =
     map_option fst (bestLoop es fl ty [0..<length es] (0, INT_MAX))"

text \<open>
  \<^verbatim>\<open>requestElevator\<close> (lines 545-571). \<open>None\<close> is undefined behaviour: a score
  that divides by zero, or \<^verbatim>\<open>elevators[0]\<close> of an empty fleet.
\<close>

definition requestElevator ::
  "int \<Rightarrow> RequestType \<Rightarrow> bool \<Rightarrow> int \<Rightarrow> ElevatorControlSystem \<Rightarrow> ElevatorControlSystem option" where
  "requestElevator fl ty emergency preferredElevator sys =
     (let es = elevators sys in
      if fl < 1 \<or> fl > systemMaxFloors sys then Some sys
      else if emergency then
        Some (sys\<lparr>elevators := map (\<lambda>e. snd (requestFloor fl ty True e)) es\<rparr>)
      else if preferredElevator > 0 \<and> preferredElevator \<le> int (length es) then
        (let i = nat (preferredElevator - 1) in
         Some (sys\<lparr>elevators := es[i := snd (requestFloor fl ty False (es ! i))]\<rparr>))
      else
        (case findBestElevator es fl ty of
           None \<Rightarrow> None
         | Some bestElevator \<Rightarrow>
             if bestElevator < length es
             then Some (sys\<lparr>elevators :=
                          es[bestElevator := snd (requestFloor fl ty False (es ! bestElevator))]\<rparr>)
             else None))"

section \<open>The representation invariant of the containers\<close>

text \<open>
  What \<^verbatim>\<open>std::set\<close> and \<^verbatim>\<open>std::map\<close> guarantee by construction, and what the
  range check of \<open>requestFloor\<close> adds for the hall calls: the car calls ascend
  strictly, the hall-call floors ascend strictly and lie in \<open>1..maxFloors\<close>.
\<close>

definition containersOrdered :: "Elevator \<Rightarrow> bool" where
  "containersOrdered e =
     (sorted_wrt (<) (internalRequests e)
      \<and> sorted_wrt (<) (map fst (externalRequests e))
      \<and> list_all (\<lambda>r. 1 \<le> fst r \<and> fst r \<le> maxFloors e) (externalRequests e))"

section \<open>Concrete cars used as inputs\<close>

text \<open>A new car of a ten-floor building with capacity five, as the constructor leaves it.\<close>

definition freshCar :: Elevator where
  "freshCar = newElevator 1 10 5"

text \<open>The same car in maintenance mode.\<close>

definition maintenanceCar :: Elevator where
  "maintenanceCar = freshCar\<lparr>maintenanceMode := True\<rparr>"

text \<open>An idle car at floor 3 whose only pending car call is floor 3 itself.\<close>

definition sameFloorCar :: Elevator where
  "sameFloorCar = freshCar\<lparr>currentFloor := 3, internalRequests := [3]\<rparr>"

text \<open>A car on its way up to floor 9, at floor 4, whose emergency latch has just been set.\<close>

definition pendingCar :: Elevator where
  "pendingCar = freshCar\<lparr>currentFloor := 4, state := MOVING_UP, internalRequests := [9],
                         emergencyStop := True\<rparr>"

text \<open>Two cars of capacity two at floor 3: an empty one, and one carrying one passenger.\<close>

definition emptyCarOfTwo :: Elevator where
  "emptyCarOfTwo = (newElevator 1 10 2)\<lparr>currentFloor := 3\<rparr>"

definition carOfTwoWithOne :: Elevator where
  "carOfTwoWithOne = (newElevator 1 10 2)\<lparr>currentFloor := 3, currentPassengers := 1\<rparr>"

text \<open>
  A car moving up that has just arrived at floor 5, where both hall buttons are pressed;
  and the same car one floor earlier, with a car call for floor 8.
\<close>

definition upwardCarAtFive :: Elevator where
  "upwardCarAtFive = freshCar\<lparr>currentFloor := 5, state := MOVING_UP,
                              externalRequests := [(5, True, True)]\<rparr>"

definition upwardCarAtFour :: Elevator where
  "upwardCarAtFour = freshCar\<lparr>currentFloor := 4, state := MOVING_UP, internalRequests := [8],
                              externalRequests := [(5, True, True)]\<rparr>"

text \<open>
  A car at floor 5 moving up with car calls 3, 7 and 9, and an idle car at floor 5 with
  hall calls only: down at 2, up at 4 and up at 8. Floor 4 is the nearest but the call
  there wants to go up from below the car; floors 2 and 8 are on the way, both three
  floors off.
\<close>

definition scanCarUp :: Elevator where
  "scanCarUp = freshCar\<lparr>currentFloor := 5, state := MOVING_UP, internalRequests := [3, 7, 9],
                        externalRequests := [(6, True, False)]\<rparr>"

definition hallCar :: Elevator where
  "hallCar = freshCar\<lparr>currentFloor := 5,
               externalRequests := [(2, False, True), (4, True, False), (8, True, False)]\<rparr>"

text \<open>The two cars of the dispatcher scenario, and a fleet whose cars are all latched.\<close>

definition carA :: Elevator where
  "carA = (newElevator 1 25 15)\<lparr>currentFloor := 10, state := MOVING_UP\<rparr>"

definition carB :: Elevator where
  "carB = (newElevator 2 25 15)\<lparr>currentFloor := 3\<rparr>"

definition latchedFleet :: ElevatorControlSystem where
  "latchedFleet =
     \<lparr> elevators = [(newElevator 1 25 15)\<lparr>emergencyStop := True\<rparr>,
                     (newElevator 2 25 15)\<lparr>emergencyStop := True\<rparr>],
       systemMaxFloors = 25 \<rparr>"

section \<open>Terms as the specification words them\<close>

text \<open>
  Section 4.1.3 of the specification calls a hall call on the way when it is at a floor
  \<open>f \<ge> current_floor\<close> with \<open>up_pressed\<close>, or at a floor \<open>f \<le> current_floor\<close>
  with \<open>down_pressed\<close>. Written from these words, to be compared with
  \<open>findNextFloor\<close>, which is written from the source.
\<close>

definition spec_on_the_way :: "int \<Rightarrow> int \<Rightarrow> bool \<Rightarrow> bool \<Rightarrow> bool" where
  "spec_on_the_way current_floor f up_pressed down_pressed =
     ((f \<ge> current_floor \<and> up_pressed) \<or> (f \<le> current_floor \<and> down_pressed))"

text \<open>
  Section 4.2.1 of the specification names three biases. They are written here from its
  words, to be compared with \<open>calculateElevatorScore\<close>, which is written from the source.
\<close>

definition spec_direction_bias :: "ElevatorState \<Rightarrow> int \<Rightarrow> int \<Rightarrow> int" where
  "spec_direction_bias st cur target =
     (if st = MOVING_UP \<and> cur \<le> target then - 10
      else if st = MOVING_UP \<and> cur > target then 10
      else if st = MOVING_DOWN \<and> cur \<ge> target then - 10
      else if st = MOVING_DOWN \<and> cur < target then 10
      else if st = IDLE then - 5
      else 0)"

definition spec_load_bias :: "int \<Rightarrow> int \<Rightarrow> int" where
  "spec_load_bias passengers cap = (passengers * 10) div cap"

definition spec_kind_mismatch_bias :: "RequestType \<Rightarrow> ElevatorState \<Rightarrow> int" where
  "spec_kind_mismatch_bias ty st =
     (if (ty = EXTERNAL_UP \<and> st = MOVING_DOWN) \<or> (ty = EXTERNAL_DOWN \<and> st = MOVING_UP)
      then 5 else 0)"

section \<open>Arithmetic within 32 bits\<close>

lemma wrap32_id: "- 2147483648 \<le> x \<Longrightarrow> x \<le> 2147483647 \<Longrightarrow> wrap32 x = x"
  by (simp add: wrap32_def)

lemma distance32_id: "\<bar>a - b\<bar> \<le> 2147483647 \<Longrightarrow> distance32 a b = \<bar>a - b\<bar>"
  by (simp add: distance32_def wrap32_id)

section \<open>Facts about the containers\<close>

lemma map_find_map_put: "map_find k (map_put k v m) = Some v"
  by (induction m) auto

lemma map_put_idem: "map_put k v (map_put k v m) = map_put k v m"
  by (induction m) auto

lemma map_find_map_erase: "map_find k (map_erase k m) = None"
  by (induction m) (auto simp: map_erase_def)

lemma set_set_insert: "set (set_insert x xs) = insert x (set xs)"
  by (induction xs) auto

lemma set_find_set_insert: "set_find x (set_insert x xs)"
  by (simp add: set_find_def set_set_insert)

lemma sorted_set_insert: "sorted_wrt (<) xs \<Longrightarrow> sorted_wrt (<) (set_insert x xs)"
  by (induction xs) (auto simp: set_set_insert)

lemma sorted_set_erase: "sorted_wrt (<) xs \<Longrightarrow> sorted_wrt (<) (set_erase x xs)"
  by (simp add: set_erase_def sorted_wrt_filter)

lemma keys_map_put: "fst ` set (map_put k v m) = insert k (fst ` set m)"
  by (induction m) auto

lemma sorted_map_put:
  "sorted_wrt (<) (map fst m) \<Longrightarrow> sorted_wrt (<) (map fst (map_put k v m))"
proof (induction m)
  case Nil
  then show ?case by simp
next
  case (Cons kv m)
  then show ?case
    using keys_map_put [of k v m] by (auto simp: image_iff)
qed

lemma sorted_map_erase:
  "sorted_wrt (<) (map fst m) \<Longrightarrow> sorted_wrt (<) (map fst (map_erase k m))"
  by (induction m) (auto simp: map_erase_def)

lemma list_all_map_put: "list_all P m \<Longrightarrow> P (k, v) \<Longrightarrow> list_all P (map_put k v m)"
  by (induction m) auto

lemma list_all_map_erase: "list_all P m \<Longrightarrow> list_all P (map_erase k m)"
  by (induction m) (auto simp: map_erase_def)

lemma map_find_in_range:
  "map_find k m = Some v \<Longrightarrow> list_all (\<lambda>r. lo \<le> fst r \<and> fst r \<le> hi) m \<Longrightarrow> lo \<le> k \<and> k \<le> hi"
  by (induction m) (auto split: if_splits)

section \<open>The operations keep the containers ordered\<close>

lemma newElevator_ordered: "containersOrdered (newElevator ident mf cap)"
  by (simp add: containersOrdered_def newElevator_def)

lemma requestFloor_keeps_order:
  assumes "containersOrdered e"
  shows "containersOrdered (snd (requestFloor fl ty emergency e))"
  using assms
  by (auto simp: requestFloor_def containersOrdered_def Let_def split: option.splits
      intro!: sorted_set_insert sorted_map_put list_all_map_put)

lemma processStop_keeps_order: "containersOrdered e \<Longrightarrow> containersOrdered (processStop e)"
  by (auto simp: processStop_def containersOrdered_def Let_def split: option.splits
      intro!: sorted_set_erase sorted_map_put sorted_map_erase list_all_map_put list_all_map_erase
      dest: map_find_in_range)

lemma controlIteration_keeps_order:
  assumes "containersOrdered e"
  shows "containersOrdered (controlIteration draw e)"
proof -
  have mv: "containersOrdered (move (decideDirection e))"
    using assms by (auto simp: containersOrdered_def move_def decideDirection_def Let_def)
  have od: "containersOrdered (openDoors draw x) = containersOrdered x" for x
    by (auto simp: containersOrdered_def openDoors_def simulatePassengers_def Let_def)
  have cd: "containersOrdered (closeDoors x) = containersOrdered x" for x
    by (auto simp: containersOrdered_def closeDoors_def)
  have us: "containersOrdered (updateState x) = containersOrdered x" for x
    by (auto simp: containersOrdered_def updateState_def Let_def)
  have sc: "containersOrdered x \<Longrightarrow> containersOrdered (stopCycle draw x)" for x
    by (simp add: stopCycle_def cd processStop_keeps_order od)
  have he: "containersOrdered (handleEmergency_begin e)" "containersOrdered (handleMaintenance_begin e)"
    using assms
    by (auto simp: containersOrdered_def handleEmergency_begin_def handleMaintenance_begin_def Let_def)
  show ?thesis
    using assms mv he by (simp add: controlIteration_def Let_def us sc)
qed

lemma latch_handling_keeps_order:
  "containersOrdered (handleEmergency_end e) = containersOrdered e"
  "containersOrdered (handleMaintenance_end e) = containersOrdered e"
  "containersOrdered (resetEmergency e) = containersOrdered e"
  "containersOrdered (setMaintenanceMode mode e) = containersOrdered e"
  by (simp_all add: containersOrdered_def handleEmergency_end_def handleMaintenance_end_def
      resetEmergency_def setMaintenanceMode_def)

section \<open>Requests at the car's interface\<close>

text \<open>
  Claim C10. An emergency request with a floor in \<open>1..maxFloors\<close> is accepted whatever
  the maintenance flag says; the car afterwards is the car before with \<open>emergencyStop\<close>
  set and nothing else changed, so the floor and the request type play no part and the
  two request collections are as they were. The predicate the control loop waits on
  holds afterwards.
\<close>

theorem requestFloor_emergency_accepted:
  assumes "1 \<le> fl" and "fl \<le> maxFloors e"
  shows "requestFloor fl ty True e = (True, e\<lparr>emergencyStop := True\<rparr>)
         \<and> internalRequests (snd (requestFloor fl ty True e)) = internalRequests e
         \<and> externalRequests (snd (requestFloor fl ty True e)) = externalRequests e
         \<and> controlWake (snd (requestFloor fl ty True e))"
  using assms by (simp add: requestFloor_def controlWake_def)

theorem requestFloor_emergency_accepted_witness:
  "(1::int) \<le> 4 \<and> 4 \<le> maxFloors maintenanceCar \<and> maintenanceMode maintenanceCar
   \<and> requestFloor 4 INTERNAL True maintenanceCar = (True, maintenanceCar\<lparr>emergencyStop := True\<rparr>)"
  using requestFloor_emergency_accepted [of 4 maintenanceCar INTERNAL]
  by (simp add: maintenanceCar_def freshCar_def newElevator_def)

text \<open>
  Claim C3, as amended. For a floor in range and a car not in maintenance, a second
  \<open>requestFloor\<close> with the same floor and type leaves the car exactly as the first
  call left it. A hall call returns \<open>true\<close> both times. A car call returns \<open>true\<close>
  only when the floor was not yet in \<open>internalRequests\<close>, so the second car call
  returns \<open>false\<close>.
\<close>

theorem requestFloor_twice:
  assumes "1 \<le> fl" and "fl \<le> maxFloors e" and "\<not> maintenanceMode e"
  shows "snd (requestFloor fl ty False (snd (requestFloor fl ty False e)))
           = snd (requestFloor fl ty False e)
         \<and> (ty \<noteq> INTERNAL \<longrightarrow>
              fst (requestFloor fl ty False e)
              \<and> fst (requestFloor fl ty False (snd (requestFloor fl ty False e))))
         \<and> (ty = INTERNAL \<longrightarrow>
              fst (requestFloor fl ty False e) = (\<not> set_find fl (internalRequests e))
              \<and> \<not> fst (requestFloor fl ty False (snd (requestFloor fl ty False e))))"
  using assms
  by (auto simp: requestFloor_def Let_def set_find_set_insert map_find_map_put map_put_idem
      split: option.splits)

theorem requestFloor_twice_witness:
  "(1::int) \<le> 3 \<and> 3 \<le> maxFloors freshCar \<and> \<not> maintenanceMode freshCar
   \<and> snd (requestFloor 3 EXTERNAL_UP False (snd (requestFloor 3 EXTERNAL_UP False freshCar)))
       = snd (requestFloor 3 EXTERNAL_UP False freshCar)
   \<and> fst (requestFloor 3 EXTERNAL_UP False freshCar)
   \<and> fst (requestFloor 3 EXTERNAL_UP False (snd (requestFloor 3 EXTERNAL_UP False freshCar)))"
  using requestFloor_twice [of 3 freshCar EXTERNAL_UP]
  by (simp add: freshCar_def newElevator_def)

text \<open>
  The claim as stated fails for a car call: on the new car, floor 3 is accepted the first
  time and the same car call is answered \<open>false\<close> the second time.
\<close>

theorem requestFloor_twice_counterexample:
  "(1::int) \<le> 3 \<and> 3 \<le> maxFloors freshCar \<and> \<not> maintenanceMode freshCar
   \<and> fst (requestFloor 3 INTERNAL False freshCar)
   \<and> \<not> fst (requestFloor 3 INTERNAL False (snd (requestFloor 3 INTERNAL False freshCar)))"
  by (simp add: requestFloor_def freshCar_def newElevator_def set_find_def)

text \<open>
  Claim C5, as amended. An idle car with a pending request takes \<open>MOVING_UP\<close> when
  \<open>findNextFloor\<close> is strictly above \<open>currentFloor\<close> and \<open>MOVING_DOWN\<close>
  otherwise: when the target is strictly below, and also when it equals
  \<open>currentFloor\<close>.
\<close>

theorem decideDirection_idle:
  assumes "state e = IDLE" and "internalRequests e \<noteq> [] \<or> hasExternalRequests e"
  shows "(findNextFloor e > currentFloor e \<longrightarrow> state (decideDirection e) = MOVING_UP)
         \<and> (findNextFloor e < currentFloor e \<longrightarrow> state (decideDirection e) = MOVING_DOWN)
         \<and> (findNextFloor e = currentFloor e \<longrightarrow> state (decideDirection e) = MOVING_DOWN)"
  using assms by (auto simp: decideDirection_def Let_def)

theorem decideDirection_idle_witness:
  "state sameFloorCar = IDLE \<and> internalRequests sameFloorCar \<noteq> []
   \<and> findNextFloor sameFloorCar = currentFloor sameFloorCar
   \<and> state (decideDirection sameFloorCar) = MOVING_DOWN"
  using decideDirection_idle [of sameFloorCar]
  by (simp add: sameFloorCar_def freshCar_def newElevator_def findNextFloor_def)

text \<open>
  The claim as stated fails where the target is the car's own floor: the idle car at
  floor 3 with the car call 3 does not take \<open>MOVING_UP\<close>.
\<close>

theorem decideDirection_idle_counterexample:
  "state sameFloorCar = IDLE \<and> internalRequests sameFloorCar \<noteq> []
   \<and> findNextFloor sameFloorCar = currentFloor sameFloorCar
   \<and> state (decideDirection sameFloorCar) \<noteq> MOVING_UP"
  by (simp add: sameFloorCar_def freshCar_def newElevator_def findNextFloor_def decideDirection_def)

section \<open>The control loop\<close>

lemma currentFloor_stopCycle: "currentFloor (stopCycle draw e) = currentFloor e"
  by (simp add: stopCycle_def closeDoors_def processStop_def openDoors_def
      simulatePassengers_def Let_def)

lemma currentFloor_updateState: "currentFloor (updateState e) = currentFloor e"
  by (simp add: updateState_def Let_def)

lemma currentFloor_move:
  "currentFloor (move e) =
     (if state e = MOVING_UP then currentFloor e + 1
      else if state e = MOVING_DOWN then currentFloor e - 1 else currentFloor e)"
  by (simp add: move_def Let_def)

text \<open>An idle, unlatched, running car with a pending request travels one floor in the pass.\<close>

lemma controlIteration_idle_moves:
  assumes "running e" and "\<not> emergencyStop e" and "\<not> maintenanceMode e" and "state e = IDLE"
    and "internalRequests e \<noteq> [] \<or> hasExternalRequests e"
  shows "\<bar>currentFloor (controlIteration draw e) - currentFloor e\<bar> = 1"
  using assms
  by (auto simp: controlIteration_def controlWake_def Let_def currentFloor_stopCycle
      currentFloor_updateState currentFloor_move decideDirection_def)

text \<open>
  Claim C4. The claim says \<open>currentFloor\<close> never leaves \<open>1..maxFloors\<close>. The code
  does leave it: the new car, at floor 1, accepts the car call for floor 1, and the next
  pass of the control loop takes it to floor 0.
\<close>

theorem controlIteration_reaches_floor_zero:
  "fst (requestFloor 1 INTERNAL False freshCar)
   \<and> currentFloor (controlIteration (0, 0) (snd (requestFloor 1 INTERNAL False freshCar))) = 0
   \<and> maxFloors (controlIteration (0, 0) (snd (requestFloor 1 INTERNAL False freshCar))) = 10"
  by (simp add: freshCar_def newElevator_def requestFloor_def set_find_def controlIteration_def
      controlWake_def decideDirection_def findNextFloor_def move_def shouldStopAtCurrentFloor_def
      updateState_def hasExternalRequests_def lower_bound_def upper_bound_def Let_def)

section \<open>The stop cycle\<close>

text \<open>
  \<open>openDoors\<close> sets the state to \<open>DOORS_OPEN\<close> before \<open>processStop\<close> reads it, so
  \<open>processStop\<close> always takes its last branch: whatever the direction of travel, the
  hall entry of the floor is gone after the stop cycle.
\<close>

lemma stopCycle_erases_hall_entry:
  "map_find (currentFloor e) (externalRequests (stopCycle draw e)) = None"
  by (simp add: stopCycle_def closeDoors_def processStop_def openDoors_def simulatePassengers_def
      Let_def map_find_map_erase split: option.splits)

text \<open>
  Claim C1. The claim says a stop made while moving up clears only the up bit and leaves
  the down bit set. The code clears both: the car arriving at floor 5 on its way up, with
  both bits set there, has no hall call left after the stop cycle, and the same holds
  for the whole pass of the control loop that brings the car from floor 4 to floor 5.
\<close>

theorem stopCycle_moving_up_clears_down_bit:
  "state upwardCarAtFive = MOVING_UP
   \<and> map_find (currentFloor upwardCarAtFive) (externalRequests upwardCarAtFive) = Some (True, True)
   \<and> shouldStopAtCurrentFloor upwardCarAtFive
   \<and> externalRequests (stopCycle (0, 0) upwardCarAtFive) = []
   \<and> currentFloor (controlIteration (0, 0) upwardCarAtFour) = 5
   \<and> externalRequests (controlIteration (0, 0) upwardCarAtFour) = []"
  by (simp add: upwardCarAtFive_def upwardCarAtFour_def freshCar_def newElevator_def
      controlIteration_def controlWake_def decideDirection_def move_def updateState_def
      findNextFloor_def upper_bound_def hasExternalRequests_def
      shouldStopAtCurrentFloor_def set_find_def stopCycle_def closeDoors_def processStop_def
      openDoors_def simulatePassengers_def Let_def map_erase_def set_erase_def)

text \<open>
  With an alighting count that is not negative, \<open>simulatePassengers\<close> never sets the
  overload flag: the boarding count is clamped before the comparison with the capacity.
\<close>

lemma simulatePassengers_no_overload:
  "0 \<le> snd draw \<Longrightarrow> overloadedFlag (simulatePassengers draw e) = overloadedFlag e"
  by (auto simp: simulatePassengers_def Let_def)

text \<open>
  Claim C2, as amended. When the draw asks for more boarding than
  \<open>capacity - currentPassengers\<close> and the alighting count is not negative, boarding is
  clamped to \<open>capacity - currentPassengers\<close> and the passenger count after the doors
  opened, and after the whole stop cycle, is the capacity minus the alighting count; it
  is the capacity when nobody alights (capacity 2, no passengers, draw (5, 0): 2).
\<close>

theorem stopCycle_clamps_boarding:
  assumes "fst draw > capacity e - currentPassengers e" and "0 \<le> snd draw"
  shows "currentPassengers (openDoors draw e) = capacity e - snd draw
         \<and> currentPassengers (stopCycle draw e) = capacity e - snd draw"
  using assms
  by (simp add: stopCycle_def closeDoors_def processStop_def openDoors_def
      simulatePassengers_def Let_def)

theorem stopCycle_clamps_boarding_witness:
  "fst (5::int, 0::int) > capacity emptyCarOfTwo - currentPassengers emptyCarOfTwo
   \<and> (0::int) \<le> snd (5::int, 0::int)
   \<and> currentPassengers (openDoors (5, 0) emptyCarOfTwo) = 2
   \<and> currentPassengers (stopCycle (5, 0) emptyCarOfTwo) = 2"
  using stopCycle_clamps_boarding [of emptyCarOfTwo "(5, 0)"]
  by (simp add: emptyCarOfTwo_def newElevator_def)

text \<open>
  The claim as stated fails: with capacity 2, one passenger and the draw (5, 1), which
  asks for more boarding than the one free place, the overload flag is not raised, the
  doors close after the one second of the door tick alone, and the car ends with one
  passenger, not two.
\<close>

theorem stopCycle_overload_counterexample:
  "validDraw carOfTwoWithOne (5, 1)
   \<and> fst (5::int, 1::int) > capacity carOfTwoWithOne - currentPassengers carOfTwoWithOne
   \<and> \<not> overloadedFlag (openDoors (5, 1) carOfTwoWithOne)
   \<and> closeDoorsDelay (processStop (openDoors (5, 1) carOfTwoWithOne)) = 1
   \<and> currentPassengers (stopCycle (5, 1) carOfTwoWithOne) = 1
   \<and> capacity (stopCycle (5, 1) carOfTwoWithOne) = 2"
  by (simp add: carOfTwoWithOne_def newElevator_def validDraw_def stopCycle_def closeDoors_def
      closeDoorsDelay_def processStop_def openDoors_def simulatePassengers_def Let_def
      set_erase_def)

section \<open>Emergency handling\<close>

text \<open>
  Claim C9. Entering the emergency stop, clearing the latch and leaving the handler each
  keep \<open>internalRequests\<close>, \<open>externalRequests\<close>, \<open>currentFloor\<close> and
  \<open>currentPassengers\<close>. For a running car the three steps together give the car back
  idle, with the doors closed and the latch clear, and nothing else changed; if a request
  is pending and the car is not in maintenance, the next pass of the control loop travels
  one floor, so service resumes.
\<close>

theorem emergency_keeps_requests:
  "internalRequests (handleEmergency_begin e) = internalRequests e
   \<and> externalRequests (handleEmergency_begin e) = externalRequests e
   \<and> currentFloor (handleEmergency_begin e) = currentFloor e
   \<and> currentPassengers (handleEmergency_begin e) = currentPassengers e
   \<and> state (handleEmergency_begin e) = EMERGENCY_STOP
   \<and> internalRequests (resetEmergency e) = internalRequests e
   \<and> externalRequests (resetEmergency e) = externalRequests e
   \<and> currentFloor (resetEmergency e) = currentFloor e
   \<and> currentPassengers (resetEmergency e) = currentPassengers e
   \<and> internalRequests (handleEmergency_end e) = internalRequests e
   \<and> externalRequests (handleEmergency_end e) = externalRequests e
   \<and> currentFloor (handleEmergency_end e) = currentFloor e
   \<and> currentPassengers (handleEmergency_end e) = currentPassengers e
   \<and> (running e \<longrightarrow>
        handleEmergency_end (resetEmergency (handleEmergency_begin e))
          = e\<lparr>state := IDLE, doorOpen := False, emergencyStop := False\<rparr>)
   \<and> (running e \<and> \<not> maintenanceMode e \<and> (internalRequests e \<noteq> [] \<or> hasExternalRequests e) \<longrightarrow>
        \<bar>currentFloor (controlIteration draw
             (handleEmergency_end (resetEmergency (handleEmergency_begin e)))) - currentFloor e\<bar> = 1)"
proof -
  let ?r = "handleEmergency_end (resetEmergency (handleEmergency_begin e))"
  have released: "running e \<Longrightarrow> ?r = e\<lparr>state := IDLE, doorOpen := False, emergencyStop := False\<rparr>"
    by (simp add: handleEmergency_begin_def handleEmergency_end_def resetEmergency_def Let_def)
  have resumes: "\<bar>currentFloor (controlIteration draw ?r) - currentFloor e\<bar> = 1"
    if "running e" and "\<not> maintenanceMode e" and "internalRequests e \<noteq> [] \<or> hasExternalRequests e"
  proof -
    have "\<bar>currentFloor (controlIteration draw ?r) - currentFloor ?r\<bar> = 1"
      using that by (intro controlIteration_idle_moves) (auto simp: released hasExternalRequests_def)
    then show ?thesis using that by (simp add: released)
  qed
  show ?thesis
    using released resumes
    by (simp add: handleEmergency_begin_def handleEmergency_end_def resetEmergency_def Let_def)
qed

theorem emergency_keeps_requests_witness:
  "running pendingCar \<and> \<not> maintenanceMode pendingCar \<and> internalRequests pendingCar \<noteq> []
   \<and> internalRequests (handleEmergency_end (resetEmergency (handleEmergency_begin pendingCar)))
       = internalRequests pendingCar
   \<and> state (handleEmergency_end (resetEmergency (handleEmergency_begin pendingCar))) = IDLE
   \<and> \<not> doorOpen (handleEmergency_end (resetEmergency (handleEmergency_begin pendingCar)))
   \<and> \<bar>currentFloor (controlIteration (0, 0)
           (handleEmergency_end (resetEmergency (handleEmergency_begin pendingCar))))
         - currentFloor pendingCar\<bar> = 1"
proof -
  let ?r = "handleEmergency_end (resetEmergency (handleEmergency_begin pendingCar))"
  have car: "running pendingCar" "\<not> maintenanceMode pendingCar" "internalRequests pendingCar \<noteq> []"
    by (simp_all add: pendingCar_def freshCar_def newElevator_def)
  note frame = emergency_keeps_requests [of pendingCar "(0, 0)"]
  have released: "internalRequests ?r = internalRequests pendingCar \<and> state ?r = IDLE \<and> \<not> doorOpen ?r"
    using frame car by simp
  have resumed: "\<bar>currentFloor (controlIteration (0, 0) ?r) - currentFloor pendingCar\<bar> = 1"
    using frame car by blast
  show ?thesis
    using car released resumed by simp
qed

section \<open>The next floor\<close>

text \<open>
  Where \<open>upper_bound\<close> finds an element, it is the least key above \<open>cur\<close>; where
  \<open>lower_bound\<close> is not \<open>begin()\<close>, the element before it is the greatest key
  below \<open>cur\<close>.
\<close>

lemma upper_bound_found:
  assumes "sorted_wrt (<) xs" and "\<exists>x \<in> set xs. cur < x"
  shows "upper_bound cur xs \<noteq> length xs
         \<and> xs ! upper_bound cur xs \<in> set xs
         \<and> cur < xs ! upper_bound cur xs
         \<and> (\<forall>x \<in> set xs. cur < x \<longrightarrow> xs ! upper_bound cur xs \<le> x)"
  using assms
proof (induction xs)
  case Nil
  then show ?case by simp
next
  case (Cons y ys)
  show ?case
  proof (cases "y \<le> cur")
    case True
    with Cons.prems have "\<exists>x \<in> set ys. cur < x" by auto
    with Cons have "upper_bound cur ys \<noteq> length ys
         \<and> ys ! upper_bound cur ys \<in> set ys
         \<and> cur < ys ! upper_bound cur ys
         \<and> (\<forall>x \<in> set ys. cur < x \<longrightarrow> ys ! upper_bound cur ys \<le> x)" by simp
    with True show ?thesis by (auto simp: upper_bound_def)
  next
    case False
    with Cons.prems show ?thesis by (auto simp: upper_bound_def)
  qed
qed

lemma upper_bound_none:
  "\<not> (\<exists>x \<in> set xs. cur < x) \<Longrightarrow> upper_bound cur xs = length xs"
  by (induction xs) (auto simp: upper_bound_def)

lemma lower_bound_found:
  assumes "sorted_wrt (<) xs" and "\<exists>x \<in> set xs. x < cur"
  shows "lower_bound cur xs \<noteq> 0
         \<and> xs ! (lower_bound cur xs - 1) \<in> set xs
         \<and> xs ! (lower_bound cur xs - 1) < cur
         \<and> (\<forall>x \<in> set xs. x < cur \<longrightarrow> x \<le> xs ! (lower_bound cur xs - 1))"
  using assms
proof (induction xs)
  case Nil
  then show ?case by simp
next
  case (Cons y ys)
  from Cons.prems have y: "y < cur" by fastforce
  show ?case
  proof (cases "\<exists>x \<in> set ys. x < cur")
    case True
    with Cons have IH: "lower_bound cur ys \<noteq> 0
         \<and> ys ! (lower_bound cur ys - 1) \<in> set ys
         \<and> ys ! (lower_bound cur ys - 1) < cur
         \<and> (\<forall>x \<in> set ys. x < cur \<longrightarrow> x \<le> ys ! (lower_bound cur ys - 1))" by simp
    then obtain k where k: "lower_bound cur ys = Suc k" by (cases "lower_bound cur ys") auto
    with y have "lower_bound cur (y # ys) = Suc (Suc k)" by (simp add: lower_bound_def)
    with IH k y Cons.prems show ?thesis by auto
  next
    case False
    then have "lower_bound cur ys = 0"
      by (cases ys) (auto simp: lower_bound_def)
    with y have "lower_bound cur (y # ys) = Suc 0" by (simp add: lower_bound_def)
    with False y show ?thesis by auto
  qed
qed

lemma lower_bound_none:
  "\<not> (\<exists>x \<in> set xs. x < cur) \<Longrightarrow> lower_bound cur xs = 0"
  by (cases xs) (auto simp: lower_bound_def)

lemma hd_least:
  "sorted_wrt (<) xs \<Longrightarrow> xs \<noteq> [] \<Longrightarrow> hd xs \<in> set xs \<and> (\<forall>x \<in> set xs. hd xs \<le> (x::int))"
  by (cases xs) auto

text \<open>
  One loop over the hall calls: the distance it returns is at most the starting one and
  at most that of every selected entry; and either nothing changed, or the returned floor
  is a selected entry at that distance, the lowest such floor.
\<close>

lemma scanRequests_result:
  assumes "sorted_wrt (<) (map fst rs)"
  shows "snd (scanRequests sel cur rs best) \<le> snd best
     \<and> (\<forall>r \<in> set rs. sel r \<longrightarrow> snd (scanRequests sel cur rs best) \<le> distance32 (fst r) cur)
     \<and> (scanRequests sel cur rs best = best
        \<or> (snd (scanRequests sel cur rs best) < snd best
           \<and> (\<exists>r \<in> set rs. sel r \<and> fst r = fst (scanRequests sel cur rs best)
                  \<and> distance32 (fst r) cur = snd (scanRequests sel cur rs best))
           \<and> (\<forall>r \<in> set rs. sel r \<and> distance32 (fst r) cur = snd (scanRequests sel cur rs best)
                  \<longrightarrow> fst (scanRequests sel cur rs best) \<le> fst r)))"
  using assms
proof (induction rs arbitrary: best)
  case Nil
  then show ?case by simp
next
  case (Cons r rs)
  let ?b = "if sel r \<and> distance32 (fst r) cur < snd best then (fst r, distance32 (fst r) cur) else best"
  from Cons.prems have srt: "sorted_wrt (<) (map fst rs)" and above: "\<forall>q \<in> set rs. fst r < fst q"
    by auto
  note IH = Cons.IH [OF srt, of ?b]
  have step: "scanRequests sel cur (r # rs) best = scanRequests sel cur rs ?b" by simp
  show ?case
  proof (cases "sel r \<and> distance32 (fst r) cur < snd best")
    case True
    then have b: "?b = (fst r, distance32 (fst r) cur)" by simp
    show ?thesis
      unfolding step using IH True above unfolding b
      by (auto simp: less_imp_le) 
  next
    case False
    then have b: "?b = best" by auto
    show ?thesis
      unfolding step using IH False unfolding b
      by auto
  qed
qed


lemma findNextFloor_internal_up:
  assumes "sorted_wrt (<) (internalRequests e)" and "state e = MOVING_UP"
    and "\<exists>x \<in> set (internalRequests e). currentFloor e < x"
  shows "findNextFloor e = Min {x \<in> set (internalRequests e). currentFloor e < x}"
proof -
  let ?xs = "internalRequests e" and ?cur = "currentFloor e"
  note ub = upper_bound_found [OF assms(1,3)]
  from assms(3) have "?xs \<noteq> []" by auto
  with ub assms(2) have "findNextFloor e = ?xs ! upper_bound ?cur ?xs"
    by (simp add: findNextFloor_def Let_def)
  moreover have "Min {x \<in> set ?xs. ?cur < x} = ?xs ! upper_bound ?cur ?xs"
    using ub by (intro Min_eqI) auto
  ultimately show ?thesis by simp
qed

lemma findNextFloor_internal_down:
  assumes "sorted_wrt (<) (internalRequests e)" and "state e = MOVING_DOWN"
    and "\<exists>x \<in> set (internalRequests e). x < currentFloor e"
  shows "findNextFloor e = Max {x \<in> set (internalRequests e). x < currentFloor e}"
proof -
  let ?xs = "internalRequests e" and ?cur = "currentFloor e"
  note lb = lower_bound_found [OF assms(1,3)]
  from assms(3) have "?xs \<noteq> []" by auto
  with lb assms(2) have "findNextFloor e = ?xs ! (lower_bound ?cur ?xs - 1)"
    by (simp add: findNextFloor_def Let_def)
  moreover have "Max {x \<in> set ?xs. x < ?cur} = ?xs ! (lower_bound ?cur ?xs - 1)"
    using lb by (intro Max_eqI) auto
  ultimately show ?thesis by simp
qed

lemma findNextFloor_internal_fallback:
  assumes "sorted_wrt (<) (internalRequests e)" and "internalRequests e \<noteq> []"
    and "\<not> (state e = MOVING_UP \<and> (\<exists>x \<in> set (internalRequests e). currentFloor e < x))"
    and "\<not> (state e = MOVING_DOWN \<and> (\<exists>x \<in> set (internalRequests e). x < currentFloor e))"
  shows "findNextFloor e = Min (set (internalRequests e))"
proof -
  let ?xs = "internalRequests e" and ?cur = "currentFloor e"
  have "findNextFloor e = hd ?xs"
    using assms(2,3,4) upper_bound_none [of ?xs ?cur] lower_bound_none [of ?xs ?cur]
    by (auto simp: findNextFloor_def Let_def)
  moreover have "Min (set ?xs) = hd ?xs"
    using hd_least [OF assms(1,2)] by (intro Min_eqI) auto
  ultimately show ?thesis by simp
qed

lemma findNextFloor_internal_member:
  assumes "sorted_wrt (<) (internalRequests e)" and "internalRequests e \<noteq> []"
  shows "findNextFloor e \<in> set (internalRequests e)"
proof -
  let ?xs = "internalRequests e" and ?cur = "currentFloor e"
  consider (up) "state e = MOVING_UP \<and> (\<exists>x \<in> set ?xs. ?cur < x)"
    | (down) "state e = MOVING_DOWN \<and> (\<exists>x \<in> set ?xs. x < ?cur)"
    | (other) "\<not> (state e = MOVING_UP \<and> (\<exists>x \<in> set ?xs. ?cur < x))"
              "\<not> (state e = MOVING_DOWN \<and> (\<exists>x \<in> set ?xs. x < ?cur))"
    by blast
  then show ?thesis
  proof cases
    case up
    then have "findNextFloor e = Min {x \<in> set ?xs. ?cur < x}"
      using findNextFloor_internal_up [OF assms(1)] by simp
    moreover have "Min {x \<in> set ?xs. ?cur < x} \<in> {x \<in> set ?xs. ?cur < x}"
      using up by (intro Min_in) auto
    ultimately show ?thesis by simp
  next
    case down
    then have "findNextFloor e = Max {x \<in> set ?xs. x < ?cur}"
      using findNextFloor_internal_down [OF assms(1)] by simp
    moreover have "Max {x \<in> set ?xs. x < ?cur} \<in> {x \<in> set ?xs. x < ?cur}"
      using down by (intro Max_in) auto
    ultimately show ?thesis by simp
  next
    case other
    then have "findNextFloor e = Min (set ?xs)"
      using findNextFloor_internal_fallback [OF assms] by simp
    then show ?thesis using assms(2) by simp
  qed
qed

lemma onTheWay_spec:
  "onTheWay cur r = spec_on_the_way cur (fst r) (fst (snd r)) (snd (snd r))"
  by (auto simp: onTheWay_def spec_on_the_way_def)

lemma findNextFloor_hall_on_the_way:
  assumes srt: "sorted_wrt (<) (map fst (externalRequests e))"
    and keys: "\<forall>r \<in> set (externalRequests e). 1 \<le> fst r \<and> fst r \<le> maxFloors e"
    and cur: "0 \<le> currentFloor e" "currentFloor e \<le> maxFloors e"
    and small: "maxFloors e < INT_MAX"
    and none: "internalRequests e = []"
    and some: "\<exists>r \<in> set (externalRequests e). onTheWay (currentFloor e) r"
  shows "(\<exists>r \<in> set (externalRequests e). onTheWay (currentFloor e) r \<and> fst r = findNextFloor e)
     \<and> (\<forall>r \<in> set (externalRequests e). onTheWay (currentFloor e) r \<longrightarrow>
            \<bar>findNextFloor e - currentFloor e\<bar> \<le> \<bar>fst r - currentFloor e\<bar>)
     \<and> (\<forall>r \<in> set (externalRequests e).
            onTheWay (currentFloor e) r \<and> \<bar>fst r - currentFloor e\<bar> = \<bar>findNextFloor e - currentFloor e\<bar>
            \<longrightarrow> findNextFloor e \<le> fst r)"
proof -
  let ?c = "currentFloor e" and ?rs = "externalRequests e"
  let ?start = "(- 1 :: int, wrap32 (maxFloors e + 1))"
  let ?res = "scanRequests (onTheWay ?c) ?c ?rs ?start"
  have sentinel: "wrap32 (maxFloors e + 1) = maxFloors e + 1"
    using cur small by (intro wrap32_id) (simp_all add: INT_MAX_def)
  have dist: "distance32 (fst r) ?c = \<bar>fst r - ?c\<bar>" if "r \<in> set ?rs" for r
    using that keys cur small by (intro distance32_id) (force simp: INT_MAX_def)
  have scan: "snd ?res \<le> snd ?start
     \<and> (\<forall>r \<in> set ?rs. onTheWay ?c r \<longrightarrow> snd ?res \<le> \<bar>fst r - ?c\<bar>)
     \<and> (?res = ?start
        \<or> (snd ?res < snd ?start
           \<and> (\<exists>r \<in> set ?rs. onTheWay ?c r \<and> fst r = fst ?res \<and> \<bar>fst r - ?c\<bar> = snd ?res)
           \<and> (\<forall>r \<in> set ?rs. onTheWay ?c r \<and> \<bar>fst r - ?c\<bar> = snd ?res \<longrightarrow> fst ?res \<le> fst r)))"
    using scanRequests_result [OF srt, of "onTheWay ?c" ?c ?start] dist by simp
  from some obtain q where q: "q \<in> set ?rs" "onTheWay ?c q" by blast
  with keys cur have "\<bar>fst q - ?c\<bar> < maxFloors e + 1" by force
  moreover from scan q have "snd ?res \<le> \<bar>fst q - ?c\<bar>" by blast
  ultimately have lt: "snd ?res < snd ?start" using sentinel by simp
  then have changed: "?res \<noteq> ?start" by auto
  with scan obtain r where r: "r \<in> set ?rs" "onTheWay ?c r" "fst r = fst ?res" "\<bar>fst r - ?c\<bar> = snd ?res"
    by blast
  with keys have "fst ?res \<noteq> - 1" by force
  with none have nf: "findNextFloor e = fst ?res"
    by (simp add: findNextFloor_def Let_def)
  have d: "\<bar>findNextFloor e - ?c\<bar> = snd ?res"
    using r nf by simp
  show ?thesis
    unfolding d unfolding nf using scan changed r by blast
qed

text \<open>
  Claim C6. The containers are ordered (the invariant above), the car is at a floor from
  0 to \<open>maxFloors\<close>, and \<open>maxFloors\<close> is below \<open>INT_MAX\<close>. With a car call pending
  the result is a car call, whatever the hall calls are: moving up, the smallest one
  strictly above \<open>currentFloor\<close>; moving down, the largest one strictly below; and the
  smallest car call of all when there is none in the direction of travel (or the car is
  not moving). With no car call pending and a hall call on the way, in the
  specification's sense of the words, the result is the floor of such a hall call at the
  least distance from \<open>currentFloor\<close>, the lowest floor among those at that distance.
\<close>

theorem findNextFloor_policy:
  assumes "containersOrdered e" and "0 \<le> currentFloor e" and "currentFloor e \<le> maxFloors e"
    and "maxFloors e < INT_MAX"
  shows "(internalRequests e \<noteq> [] \<longrightarrow>
            findNextFloor e \<in> set (internalRequests e)
            \<and> (state e = MOVING_UP \<and> (\<exists>x \<in> set (internalRequests e). currentFloor e < x) \<longrightarrow>
                 findNextFloor e = Min {x \<in> set (internalRequests e). currentFloor e < x})
            \<and> (state e = MOVING_DOWN \<and> (\<exists>x \<in> set (internalRequests e). x < currentFloor e) \<longrightarrow>
                 findNextFloor e = Max {x \<in> set (internalRequests e). x < currentFloor e})
            \<and> (\<not> (state e = MOVING_UP \<and> (\<exists>x \<in> set (internalRequests e). currentFloor e < x))
                \<and> \<not> (state e = MOVING_DOWN \<and> (\<exists>x \<in> set (internalRequests e). x < currentFloor e)) \<longrightarrow>
                 findNextFloor e = Min (set (internalRequests e))))
         \<and> (internalRequests e = []
             \<and> (\<exists>r \<in> set (externalRequests e).
                    spec_on_the_way (currentFloor e) (fst r) (fst (snd r)) (snd (snd r))) \<longrightarrow>
              (\<exists>r \<in> set (externalRequests e).
                  spec_on_the_way (currentFloor e) (fst r) (fst (snd r)) (snd (snd r))
                  \<and> fst r = findNextFloor e)
              \<and> (\<forall>r \<in> set (externalRequests e).
                     spec_on_the_way (currentFloor e) (fst r) (fst (snd r)) (snd (snd r)) \<longrightarrow>
                     \<bar>findNextFloor e - currentFloor e\<bar> \<le> \<bar>fst r - currentFloor e\<bar>)
              \<and> (\<forall>r \<in> set (externalRequests e).
                     spec_on_the_way (currentFloor e) (fst r) (fst (snd r)) (snd (snd r))
                     \<and> \<bar>fst r - currentFloor e\<bar> = \<bar>findNextFloor e - currentFloor e\<bar>
                     \<longrightarrow> findNextFloor e \<le> fst r))"
proof -
  from assms(1) have srtI: "sorted_wrt (<) (internalRequests e)"
    and srtE: "sorted_wrt (<) (map fst (externalRequests e))"
    and keys: "\<forall>r \<in> set (externalRequests e). 1 \<le> fst r \<and> fst r \<le> maxFloors e"
    by (simp_all add: containersOrdered_def list_all_iff)
  show ?thesis
  proof (intro conjI impI)
    assume "internalRequests e \<noteq> []"
    then show "findNextFloor e \<in> set (internalRequests e)"
      using findNextFloor_internal_member [OF srtI] by simp
  next
    assume "state e = MOVING_UP \<and> (\<exists>x \<in> set (internalRequests e). currentFloor e < x)"
    then show "findNextFloor e = Min {x \<in> set (internalRequests e). currentFloor e < x}"
      using findNextFloor_internal_up [OF srtI] by simp
  next
    assume "state e = MOVING_DOWN \<and> (\<exists>x \<in> set (internalRequests e). x < currentFloor e)"
    then show "findNextFloor e = Max {x \<in> set (internalRequests e). x < currentFloor e}"
      using findNextFloor_internal_down [OF srtI] by simp
  next
    assume "internalRequests e \<noteq> []"
      and "\<not> (state e = MOVING_UP \<and> (\<exists>x \<in> set (internalRequests e). currentFloor e < x))
           \<and> \<not> (state e = MOVING_DOWN \<and> (\<exists>x \<in> set (internalRequests e). x < currentFloor e))"
    then show "findNextFloor e = Min (set (internalRequests e))"
      using findNextFloor_internal_fallback [OF srtI] by simp
  next
    assume h: "internalRequests e = []
               \<and> (\<exists>r \<in> set (externalRequests e).
                      spec_on_the_way (currentFloor e) (fst r) (fst (snd r)) (snd (snd r)))"
    then have none: "internalRequests e = []"
      and some: "\<exists>r \<in> set (externalRequests e). onTheWay (currentFloor e) r"
      by (simp_all add: onTheWay_spec)
    note hall = findNextFloor_hall_on_the_way [OF srtE keys assms(2,3,4) none some,
        unfolded onTheWay_spec]
    from hall show "\<exists>r \<in> set (externalRequests e).
                  spec_on_the_way (currentFloor e) (fst r) (fst (snd r)) (snd (snd r))
                  \<and> fst r = findNextFloor e"
      by blast
    from hall show "\<forall>r \<in> set (externalRequests e).
                     spec_on_the_way (currentFloor e) (fst r) (fst (snd r)) (snd (snd r)) \<longrightarrow>
                     \<bar>findNextFloor e - currentFloor e\<bar> \<le> \<bar>fst r - currentFloor e\<bar>"
      by blast
    from hall show "\<forall>r \<in> set (externalRequests e).
                     spec_on_the_way (currentFloor e) (fst r) (fst (snd r)) (snd (snd r))
                     \<and> \<bar>fst r - currentFloor e\<bar> = \<bar>findNextFloor e - currentFloor e\<bar>
                     \<longrightarrow> findNextFloor e \<le> fst r"
      by blast
  qed
qed

theorem findNextFloor_policy_witness:
  "containersOrdered scanCarUp
   \<and> 0 \<le> currentFloor scanCarUp \<and> currentFloor scanCarUp \<le> maxFloors scanCarUp
   \<and> maxFloors scanCarUp < INT_MAX
   \<and> state scanCarUp = MOVING_UP
   \<and> list_ex (\<lambda>x. currentFloor scanCarUp < x) (internalRequests scanCarUp)
   \<and> findNextFloor scanCarUp = 7
   \<and> containersOrdered hallCar
   \<and> 0 \<le> currentFloor hallCar \<and> currentFloor hallCar \<le> maxFloors hallCar
   \<and> maxFloors hallCar < INT_MAX
   \<and> internalRequests hallCar = []
   \<and> \<not> spec_on_the_way (currentFloor hallCar) 4 True False
   \<and> spec_on_the_way (currentFloor hallCar) 2 False True
   \<and> spec_on_the_way (currentFloor hallCar) 8 True False
   \<and> findNextFloor hallCar = 2"
  using findNextFloor_policy [of scanCarUp] findNextFloor_policy [of hallCar]
  by (simp add: scanCarUp_def hallCar_def freshCar_def newElevator_def findNextFloor_def
      upper_bound_def onTheWay_def pressed_def containersOrdered_def spec_on_the_way_def
      INT_MAX_def wrap32_def distance32_def)

section \<open>The dispatcher\<close>

lemma sdiv_nonneg: "0 \<le> a \<Longrightarrow> 0 < b \<Longrightarrow> a sdiv b = a div (b::int)"
  by (cases "a = 0") (simp_all add: signed_divide_int_def)

lemma score_sum_in_range:
  assumes "0 \<le> d" and "d + 25 \<le> 2147483647" and "- 10 \<le> dir" and "dir \<le> 10"
    and "0 \<le> l" and "l \<le> 10" and "0 \<le> t" and "t \<le> 5"
  shows "wrap32 (wrap32 (wrap32 (d + dir) + l) + t) = d + dir + l + t"
proof -
  from assms have 1: "wrap32 (d + dir) = d + dir" by (intro wrap32_id) linarith+
  from assms have 2: "wrap32 (d + dir + l) = d + dir + l" by (intro wrap32_id) linarith+
  from assms have 3: "wrap32 (d + dir + l + t) = d + dir + l + t" by (intro wrap32_id) linarith+
  show ?thesis unfolding 1 2 3 ..
qed

lemma load_in_range:
  assumes "0 \<le> p" and "p \<le> c" and "0 < c" and "p * 10 \<le> 2147483647"
  shows "wrap32 (wrap32 (p * 10) sdiv c) = (p * 10) div c
         \<and> 0 \<le> (p * 10) div c \<and> (p * 10) div c \<le> 10"
proof -
  from assms have prod: "wrap32 (p * 10) = p * 10"
    by (intro wrap32_id) linarith+
  from assms have quot: "(p * 10) sdiv c = (p * 10) div c"
    by (intro sdiv_nonneg) linarith+
  from assms have lo: "0 \<le> (p * 10) div c"
    by (simp add: pos_imp_zdiv_nonneg_iff)
  from assms have "(p * 10) div c \<le> (c * 10) div c"
    by (intro zdiv_mono1) linarith+
  with assms have hi: "(p * 10) div c \<le> 10"
    by simp
  from lo hi have "wrap32 ((p * 10) div c) = (p * 10) div c"
    by (intro wrap32_id) linarith+
  with lo hi show ?thesis
    unfolding prod quot by simp
qed

text \<open>
  Claim C7. For a car with neither latch set, a passenger count between 0 and the
  capacity, and operands small enough for 32-bit arithmetic (ten times the passenger
  count and the distance plus 25 are at most \<open>INT_MAX\<close>), the score is the distance
  plus the direction bias plus \<open>(passengers * 10) div capacity\<close> plus the
  kind-mismatch bias, each as the specification words it; the direction bias of
  \<open>DOORS_OPEN\<close> is 0. For car A at floor 10 moving up and car B idle at floor 3, the
  hall-up call at floor 4 scores 16 and -4, and the second car (index 1) is chosen.
\<close>

theorem calculateElevatorScore_formula:
  assumes "\<not> emergencyStop (es ! i)" and "\<not> maintenanceMode (es ! i)"
    and "0 \<le> currentPassengers (es ! i)" and "currentPassengers (es ! i) \<le> capacity (es ! i)"
    and "0 < capacity (es ! i)"
    and "currentPassengers (es ! i) * 10 \<le> INT_MAX"
    and "\<bar>currentFloor (es ! i) - target\<bar> + 25 \<le> INT_MAX"
  shows "calculateElevatorScore es i target ty =
           Some (\<bar>currentFloor (es ! i) - target\<bar>
                 + spec_direction_bias (state (es ! i)) (currentFloor (es ! i)) target
                 + spec_load_bias (currentPassengers (es ! i)) (capacity (es ! i))
                 + spec_kind_mismatch_bias ty (state (es ! i)))
         \<and> spec_direction_bias DOORS_OPEN (currentFloor (es ! i)) target = 0
         \<and> calculateElevatorScore [carA, carB] 0 4 EXTERNAL_UP = Some 16
         \<and> calculateElevatorScore [carA, carB] 1 4 EXTERNAL_UP = Some (- 4)
         \<and> findBestElevator [carA, carB] 4 EXTERNAL_UP = Some 1"
proof -
  let ?e = "es ! i"
  define dir where "dir =
     (if state ?e = MOVING_UP then (if currentFloor ?e \<le> target then - 10 else 10)
      else if state ?e = MOVING_DOWN then (if currentFloor ?e \<ge> target then - 10 else 10)
      else if state ?e = IDLE then - 5
      else (0::int))"
  define t where "t =
     (if ty = EXTERNAL_UP \<and> state ?e = MOVING_DOWN then 5
      else if ty = EXTERNAL_DOWN \<and> state ?e = MOVING_UP then 5
      else (0::int))"
  have cap: "capacity ?e \<noteq> 0"
    using assms(5) by simp
  have code: "calculateElevatorScore es i target ty =
      Some (wrap32 (wrap32 (wrap32 (distance32 (currentFloor ?e) target + dir)
                            + wrap32 (wrap32 (currentPassengers ?e * 10) sdiv capacity ?e)) + t))"
    unfolding calculateElevatorScore_def Let_def dir_def t_def
    using assms(1,2) cap by (simp only: if_False simp_thms)
  have dist: "distance32 (currentFloor ?e) target = \<bar>currentFloor ?e - target\<bar>"
    using assms(7) by (intro distance32_id) (simp add: INT_MAX_def)
  have load: "wrap32 (wrap32 (currentPassengers ?e * 10) sdiv capacity ?e)
                = spec_load_bias (currentPassengers ?e) (capacity ?e)
              \<and> 0 \<le> spec_load_bias (currentPassengers ?e) (capacity ?e)
              \<and> spec_load_bias (currentPassengers ?e) (capacity ?e) \<le> 10"
    unfolding spec_load_bias_def
    using assms(3,4,5,6) by (intro load_in_range) (simp_all add: INT_MAX_def)
  have dir_spec: "dir = spec_direction_bias (state ?e) (currentFloor ?e) target"
    by (auto simp: dir_def spec_direction_bias_def)
  have dir_range: "- 10 \<le> dir \<and> dir \<le> 10"
    by (simp add: dir_def)
  have t_spec: "t = spec_kind_mismatch_bias ty (state ?e)"
    by (auto simp: t_def spec_kind_mismatch_bias_def)
  have t_range: "0 \<le> t \<and> t \<le> 5"
    by (simp add: t_def)
  have sum: "wrap32 (wrap32 (wrap32 (\<bar>currentFloor ?e - target\<bar> + dir)
                + spec_load_bias (currentPassengers ?e) (capacity ?e)) + t)
             = \<bar>currentFloor ?e - target\<bar> + dir
               + spec_load_bias (currentPassengers ?e) (capacity ?e) + t"
    using assms(7) dir_range load t_range
    by (intro score_sum_in_range) (simp_all add: INT_MAX_def)
  have general: "calculateElevatorScore es i target ty =
           Some (\<bar>currentFloor ?e - target\<bar>
                 + spec_direction_bias (state ?e) (currentFloor ?e) target
                 + spec_load_bias (currentPassengers ?e) (capacity ?e)
                 + spec_kind_mismatch_bias ty (state ?e))"
    unfolding code dist unfolding load [THEN conjunct1] unfolding sum
    unfolding dir_spec t_spec ..
  have w: "wrap32 16 = 16" "wrap32 0 = 0" "wrap32 (- 4) = - 4"
    by (simp_all add: wrap32_id)
  have d: "distance32 10 4 = 6" "distance32 3 4 = 1"
    by (simp_all add: distance32_id)
  have a: "calculateElevatorScore [carA, carB] 0 4 EXTERNAL_UP = Some 16"
    by (simp add: calculateElevatorScore_def carA_def newElevator_def signed_divide_int_def d w)
  have b: "calculateElevatorScore [carA, carB] 1 4 EXTERNAL_UP = Some (- 4)"
    by (simp add: calculateElevatorScore_def carB_def newElevator_def signed_divide_int_def d w)
  have "[0..<length [carA, carB]] = [0, 1]"
    by (simp add: upt_rec)
  moreover have "calculateElevatorScore [carA, carB] (Suc 0) 4 EXTERNAL_UP = Some (- 4)"
    using b by simp
  ultimately have best: "findBestElevator [carA, carB] 4 EXTERNAL_UP = Some 1"
    by (simp add: findBestElevator_def a INT_MAX_def)
  have doors: "spec_direction_bias DOORS_OPEN (currentFloor ?e) target = 0"
    by (simp add: spec_direction_bias_def)
  from general doors a b best show ?thesis
    by (intro conjI)
qed

theorem calculateElevatorScore_formula_witness:
  "\<not> emergencyStop ([carA, carB] ! 0) \<and> \<not> maintenanceMode ([carA, carB] ! 0)
   \<and> 0 \<le> currentPassengers ([carA, carB] ! 0)
   \<and> currentPassengers ([carA, carB] ! 0) \<le> capacity ([carA, carB] ! 0)
   \<and> 0 < capacity ([carA, carB] ! 0)
   \<and> currentPassengers ([carA, carB] ! 0) * 10 \<le> INT_MAX
   \<and> \<bar>currentFloor ([carA, carB] ! 0) - 4\<bar> + 25 \<le> INT_MAX
   \<and> calculateElevatorScore [carA, carB] 0 4 EXTERNAL_UP = Some (\<bar>10 - 4\<bar> + 10 + 0 + 0)"
proof -
  have car: "\<not> emergencyStop ([carA, carB] ! 0)" "\<not> maintenanceMode ([carA, carB] ! 0)"
    "0 \<le> currentPassengers ([carA, carB] ! 0)"
    "currentPassengers ([carA, carB] ! 0) \<le> capacity ([carA, carB] ! 0)"
    "0 < capacity ([carA, carB] ! 0)"
    "currentPassengers ([carA, carB] ! 0) * 10 \<le> INT_MAX"
    "\<bar>currentFloor ([carA, carB] ! 0) - 4\<bar> + 25 \<le> INT_MAX"
    by (simp_all add: carA_def newElevator_def INT_MAX_def)
  from calculateElevatorScore_formula [OF car, of EXTERNAL_UP]
  have "calculateElevatorScore [carA, carB] 0 4 EXTERNAL_UP = Some 16"
    by (rule conjunct2 [THEN conjunct2, THEN conjunct1])
  with car show ?thesis
    by simp
qed

text \<open>A latched car scores \<open>INT_MAX\<close>.\<close>

lemma calculateElevatorScore_latched:
  "emergencyStop (es ! i) \<or> maintenanceMode (es ! i) \<Longrightarrow>
   calculateElevatorScore es i fl ty = Some INT_MAX"
  by (simp add: calculateElevatorScore_def Let_def)

text \<open>
  The loop returns a score that is at most the starting score and at most every score
  it met, and either returns its starting pair or a car it met, with that car's score,
  strictly below the starting score.
\<close>

lemma bestLoop_result:
  "bestLoop es fl ty idxs best = Some res \<Longrightarrow>
   snd res \<le> snd best
   \<and> (\<forall>i \<in> set idxs. \<forall>s. calculateElevatorScore es i fl ty = Some s \<longrightarrow> snd res \<le> s)
   \<and> (res = best \<or> (fst res \<in> set idxs \<and> calculateElevatorScore es (fst res) fl ty = Some (snd res)
                      \<and> snd res < snd best))"
proof (induction idxs arbitrary: best)
  case Nil
  then show ?case by simp
next
  case (Cons i rest)
  from Cons.prems obtain score where sc: "calculateElevatorScore es i fl ty = Some score"
    and run: "bestLoop es fl ty rest (if score < snd best then (i, score) else best) = Some res"
    by (auto split: option.splits)
  from Cons.IH [OF run] show ?case
    using sc by (auto split: if_splits)
qed

text \<open>As soon as one car scores below \<open>INT_MAX\<close>, the chosen car is not latched.\<close>

lemma findBestElevator_avoids_latched:
  assumes "findBestElevator es fl ty = Some b"
    and "i < length es" and "calculateElevatorScore es i fl ty = Some s" and "s < INT_MAX"
  shows "b < length es \<and> \<not> emergencyStop (es ! b) \<and> \<not> maintenanceMode (es ! b)"
proof -
  from assms(1) obtain bs where run: "bestLoop es fl ty [0..<length es] (0, INT_MAX) = Some (b, bs)"
    by (auto simp: findBestElevator_def)
  note r = bestLoop_result [OF run]
  from r assms(2,3) have "bs \<le> s" by auto
  with assms(4) have "bs < INT_MAX" by simp
  with r have chosen: "b < length es" "calculateElevatorScore es b fl ty = Some bs"
    by auto
  with \<open>bs < INT_MAX\<close> show ?thesis
    using calculateElevatorScore_latched [of es b fl ty] by auto
qed

text \<open>
  Claim C8. The claim says a latched car is never the car the request is forwarded to,
  whatever the latches of the fleet. With every car latched the code forwards to the first
  car: both cars of the fleet have the emergency latch set and score \<open>INT_MAX\<close>,
  \<open>findBestElevator\<close> returns index 0, and after \<open>requestElevator\<close> the car call for
  floor 5 is in the first car's \<open>internalRequests\<close>.
\<close>

theorem requestElevator_all_latched:
  "emergencyStop (elevators latchedFleet ! 0) \<and> emergencyStop (elevators latchedFleet ! 1)
   \<and> calculateElevatorScore (elevators latchedFleet) 0 5 INTERNAL = Some INT_MAX
   \<and> calculateElevatorScore (elevators latchedFleet) 1 5 INTERNAL = Some INT_MAX
   \<and> findBestElevator (elevators latchedFleet) 5 INTERNAL = Some 0
   \<and> map_option (\<lambda>sys. map internalRequests (elevators sys))
        (requestElevator 5 INTERNAL False (- 1) latchedFleet) = Some [[5], []]"
  by (simp add: latchedFleet_def newElevator_def calculateElevatorScore_def findBestElevator_def
      requestElevator_def requestFloor_def set_find_def upt_rec Let_def)

end
